theory Spec2Isabelle
  imports Complex_Main
begin

section \<open>JavaScript array primitives used by the history code\<close>

text \<open>
  \<^verbatim>\<open>Array.prototype.slice(start, end)\<close>: a negative index counts from the end of the
  array, and both indices are clipped to the array.
\<close>

definition js_rel_index :: "int \<Rightarrow> int \<Rightarrow> int" where
  "js_rel_index n i = (if i < 0 then max (n + i) 0 else min i n)"

definition js_slice :: "'a list \<Rightarrow> int \<Rightarrow> int \<Rightarrow> 'a list" where
  "js_slice xs start end' =
     (let n = int (length xs);
          k = js_rel_index n start;
          fin = js_rel_index n end'
      in take (nat (fin - k)) (drop (nat k) xs))"

text \<open>\<^verbatim>\<open>xs.slice(start)\<close>: the end defaults to the length.\<close>

definition js_slice_from :: "'a list \<Rightarrow> int \<Rightarrow> 'a list" where
  "js_slice_from xs start = js_slice xs start (int (length xs))"

text \<open>\<^verbatim>\<open>xs[i]\<close>: \<open>None\<close> stands for \<^verbatim>\<open>undefined\<close>, the value of a read out of range.\<close>

definition js_nth :: "'a list \<Rightarrow> int \<Rightarrow> 'a option" where
  "js_nth xs i = (if 0 \<le> i \<and> i < int (length xs) then Some (xs ! nat i) else None)"

text \<open>The same read at an index that is a natural number by construction.\<close>

definition js_at :: "'a list \<Rightarrow> nat \<Rightarrow> 'a option" where
  "js_at xs i = (if i < length xs then Some (xs ! i) else None)"

section \<open>Undo/redo history (App.js, lines 182-183 and 278-313)\<close>

text \<open>
  The component state that the history code reads and writes: the offscreen canvas
  \<^verbatim>\<open>fullRef.current\<close> (\<open>None\<close> while it is still \<^verbatim>\<open>null\<close>), the list
  \<^verbatim>\<open>history\<close> of PNG data URLs and the cursor \<^verbatim>\<open>hIndex\<close>. The type \<open>'c\<close> is the
  content of a canvas; PNG is lossless, so a data URL is identified with the content it
  encodes. The image decode started by \<^verbatim>\<open>restoreFromDataURL\<close> is taken to complete
  before the next operation.
\<close>

record 'c app =
  full :: "'c option"
  history :: "'c list"
  hIndex :: int

definition init_app :: "'c app" where
  "init_app = \<lparr>full = None, history = [], hIndex = - 1\<rparr>"

text \<open>
  \<^verbatim>\<open>pushHistory\<close> is a callback with the dependency \<^verbatim>\<open>[hIndex]\<close>: the \<^verbatim>\<open>hIndex\<close> in
  \<^verbatim>\<open>h.slice(0, hIndex + 1)\<close> is the value \<open>captured\<close> by the closure when the callback
  was built, while \<^verbatim>\<open>setHIndex((i) => Math.min(i + 1, 19))\<close> updates the live cursor.
\<close>

definition pushHistory :: "int \<Rightarrow> 'c app \<Rightarrow> 'c app" where
  "pushHistory captured s =
     (case full s of
        None \<Rightarrow> s
      | Some url \<Rightarrow>
          (let next = js_slice (history s) 0 (captured + 1) @ [url]
           in s\<lparr>history := js_slice_from next (- 20),
                 hIndex := min (hIndex s + 1) 19\<rparr>))"

text \<open>
  \<^verbatim>\<open>restoreFromDataURL(url)\<close> decodes the URL and draws it over the whole canvas. An
  \<^verbatim>\<open>undefined\<close> URL never loads, and with no canvas the load handler fails; in both
  cases the state is left as it was.
\<close>

definition restoreFromDataURL :: "'c option \<Rightarrow> 'c app \<Rightarrow> 'c app" where
  "restoreFromDataURL url s =
     (case (url, full s) of
        (Some u, Some c) \<Rightarrow> s\<lparr>full := Some u\<rparr>
      | _ \<Rightarrow> s)"

text \<open>
  \<open>undo\<close> and \<open>redo\<close> return, beside the new state, the argument handed to
  \<^verbatim>\<open>restoreFromDataURL\<close>: \<open>NotCalled\<close> when the guard fails, \<open>Restored v\<close> otherwise.
\<close>

datatype 'c restore = NotCalled | Restored "'c option"

definition undo :: "'c app \<Rightarrow> 'c restore \<times> 'c app" where
  "undo s =
     (if hIndex s > 0
      then (let url = js_nth (history s) (hIndex s - 1)
            in (Restored url, (restoreFromDataURL url s)\<lparr>hIndex := hIndex s - 1\<rparr>))
      else (NotCalled, s))"

definition redo :: "'c app \<Rightarrow> 'c restore \<times> 'c app" where
  "redo s =
     (if hIndex s < int (length (history s)) - 1
      then (let url = js_nth (history s) (hIndex s + 1)
            in (Restored url, (restoreFromDataURL url s)\<lparr>hIndex := hIndex s + 1\<rparr>))
      else (NotCalled, s))"

text \<open>
  What can happen to the state between two renders: a redraw puts new content on the
  canvas, the Snapshot button pushes, the shortcuts undo and redo. The button and the
  shortcuts call the callbacks of the latest render, whose closures hold the current
  \<^verbatim>\<open>hIndex\<close> and \<^verbatim>\<open>history\<close>.
\<close>

datatype 'c action = Draw 'c | Snapshot | Undo | Redo

fun step :: "'c app \<Rightarrow> 'c action \<Rightarrow> 'c app" where
  "step s (Draw c) = s\<lparr>full := Some c\<rparr>"
| "step s Snapshot = pushHistory (hIndex s) s"
| "step s Undo = snd (undo s)"
| "step s Redo = snd (redo s)"

definition run :: "'c action list \<Rightarrow> 'c app \<Rightarrow> 'c app" where
  "run acts s = foldl step s acts"

definition hist_inv :: "'c app \<Rightarrow> bool" where
  "hist_inv s \<longleftrightarrow>
     - 1 \<le> hIndex s \<and> hIndex s \<le> int (length (history s)) - 1 \<and> length (history s) \<le> 20"

text \<open>Committing the snapshots \<open>xs\<close> one after the other: each is drawn, then pushed.\<close>

definition snapshots :: "'c list \<Rightarrow> 'c action list" where
  "snapshots xs = concat (map (\<lambda>x. [Draw x, Snapshot]) xs)"

text \<open>
  Loading an image (lines 212-232). The effect with the dependency \<^verbatim>\<open>[imgUrl]\<close> runs
  once when the URL changes and installs an \<^verbatim>\<open>onload\<close> handler that closes over the
  \<^verbatim>\<open>pushHistory\<close> of that render; the handler runs later, when the image has been
  decoded, and whatever happened in between has not rebuilt it. The second component of
  the state is the \<^verbatim>\<open>hIndex\<close> this pending handler has captured. \<open>Onload c\<close> is the
  handler: the canvas is resized and redrawn (to the content \<open>c\<close>), then pushed.
\<close>

datatype 'c event = Act "'c action" | SetUrl | Onload 'c

fun step_ev :: "'c app \<times> int \<Rightarrow> 'c event \<Rightarrow> 'c app \<times> int" where
  "step_ev (s, k) (Act a) = (step s a, k)"
| "step_ev (s, k) SetUrl = (s, hIndex s)"
| "step_ev (s, k) (Onload c) = (pushHistory k (s\<lparr>full := Some c\<rparr>), k)"

definition run_ev :: "'c event list \<Rightarrow> 'c app \<times> int \<Rightarrow> 'c app \<times> int" where
  "run_ev evs st = foldl step_ev st evs"

section \<open>Canvases, image data and typed arrays\<close>

text \<open>
  A canvas, and likewise an \<^verbatim>\<open>ImageData\<close> read from it: its dimensions and its RGBA bytes,
  row by row, four per pixel. Bytes are natural numbers; everything stored into a
  \<^verbatim>\<open>Uint8ClampedArray\<close> goes through \<open>toUint8Clamped\<close> below and is at most 255.
\<close>

record canvas =
  width :: nat
  height :: nat
  data :: "nat list"

definition wf_canvas :: "canvas \<Rightarrow> bool" where
  "wf_canvas c \<longleftrightarrow> length (data c) = 4 * width c * height c"

datatype dom_error = IndexSizeError | InvalidStateError

text \<open>
  \<^verbatim>\<open>ctx.getImageData(0, 0, width, height)\<close> and \<^verbatim>\<open>ctx.createImageData(width, height)\<close>
  raise \<^verbatim>\<open>IndexSizeError\<close> when either dimension is zero; the created image data is
  transparent black.
\<close>

definition getImageData :: "canvas \<Rightarrow> dom_error + canvas" where
  "getImageData c = (if width c = 0 \<or> height c = 0 then Inl IndexSizeError else Inr c)"

definition createImageData :: "nat \<Rightarrow> nat \<Rightarrow> dom_error + canvas" where
  "createImageData w h =
     (if w = 0 \<or> h = 0 then Inl IndexSizeError
      else Inr \<lparr>width = w, height = h, data = replicate (4 * w * h) 0\<rparr>)"

subsection \<open>JavaScript numbers\<close>

text \<open>
  A JavaScript number is an IEEE 754 double: a finite value (a rational; the sign of zero
  is not kept, it never reaches a stored byte), an infinity or \<^verbatim>\<open>NaN\<close>. Every arithmetic
  operation returns the exact result rounded to the nearest double, ties to the even
  significand, by \<open>rd\<close>: 53 significant bits, exponents down to \<open>-1022\<close> (below, the
  spacing stays \<open>2\<^sup>-\<^sup>1\<^sup>0\<^sup>7\<^sup>4\<close>), and overflow to an infinity from \<open>2\<^sup>1\<^sup>0\<^sup>2\<^sup>4\<close> on.
\<close>

datatype num = Fin rat | PInf | NInf | NaN

function bitlen :: "int \<Rightarrow> int" where
  "bitlen n = (if n \<le> 0 then 0 else 1 + bitlen (n div 2))"
  by pat_completeness auto
termination
  by (relation "measure nat") auto

declare bitlen.simps [simp del]

definition pow2 :: "int \<Rightarrow> rat" where
  "pow2 e = (if 0 \<le> e then 2 ^ nat e else 1 / 2 ^ nat (- e))"

text \<open>For \<open>a > 0\<close>, the \<open>e\<close> with \<open>2\<^sup>e \<le> a < 2\<^sup>e\<^sup>+\<^sup>1\<close>.\<close>

definition ilog2 :: "rat \<Rightarrow> int" where
  "ilog2 a =
     (case quotient_of a of (n, d) \<Rightarrow>
        (let e0 = bitlen n - bitlen d
         in if pow2 e0 \<le> a then e0 else e0 - 1))"

definition roundEven :: "rat \<Rightarrow> int" where
  "roundEven v =
     (let fl = \<lfloor>v\<rfloor>; d = v - of_int fl
      in if d < 1 / 2 then fl
         else if 1 / 2 < d then fl + 1
         else if even fl then fl else fl + 1)"

definition rd :: "rat \<Rightarrow> num" where
  "rd x =
     (if x = 0 then Fin 0
      else (let a = \<bar>x\<bar>;
                e = max (ilog2 a) (- 1022);
                q = pow2 (e - 52);
                r = of_int (roundEven (a / q)) * q
            in if pow2 1024 \<le> r then (if 0 < x then PInf else NInf)
               else Fin (if 0 < x then r else - r)))"

fun dadd :: "num \<Rightarrow> num \<Rightarrow> num" where
  "dadd NaN _ = NaN"
| "dadd _ NaN = NaN"
| "dadd PInf NInf = NaN"
| "dadd NInf PInf = NaN"
| "dadd PInf _ = PInf"
| "dadd _ PInf = PInf"
| "dadd NInf _ = NInf"
| "dadd _ NInf = NInf"
| "dadd (Fin x) (Fin y) = rd (x + y)"

text \<open>The sign of a number that is not \<^verbatim>\<open>NaN\<close>: \<open>1\<close>, \<open>0\<close> or \<open>- 1\<close>.\<close>

fun dsgn :: "num \<Rightarrow> int" where
  "dsgn (Fin x) = (if 0 < x then 1 else if x < 0 then - 1 else 0)"
| "dsgn PInf = 1"
| "dsgn NInf = - 1"
| "dsgn NaN = 0"

definition inf_of :: "int \<Rightarrow> num" where
  "inf_of sg = (if 0 < sg then PInf else if sg < 0 then NInf else NaN)"

fun dmul :: "num \<Rightarrow> num \<Rightarrow> num" where
  "dmul NaN _ = NaN"
| "dmul _ NaN = NaN"
| "dmul (Fin x) (Fin y) = rd (x * y)"
| "dmul a b = inf_of (dsgn a * dsgn b)"

text \<open>
  Division. A finite number divided by zero gives an infinity whose sign depends on the
  sign of the zero; the only divisor in the program is \<^verbatim>\<open>sum||1\<close>, which is never zero.
\<close>

fun ddiv :: "num \<Rightarrow> num \<Rightarrow> num" where
  "ddiv NaN _ = NaN"
| "ddiv _ NaN = NaN"
| "ddiv (Fin x) (Fin y) = (if y = 0 then inf_of (dsgn (Fin x)) else rd (x / y))"
| "ddiv (Fin x) _ = Fin 0"
| "ddiv a (Fin y) = inf_of (dsgn a * (if y < 0 then - 1 else 1))"
| "ddiv _ _ = NaN"

text \<open>\<^verbatim>\<open>Math.min\<close> and \<^verbatim>\<open>Math.max\<close>: \<^verbatim>\<open>NaN\<close> if an argument is \<^verbatim>\<open>NaN\<close>.\<close>

fun dle :: "num \<Rightarrow> num \<Rightarrow> bool" where
  "dle NInf _ = True"
| "dle _ PInf = True"
| "dle (Fin x) (Fin y) = (x \<le> y)"
| "dle _ _ = False"

definition dmin :: "num \<Rightarrow> num \<Rightarrow> num" where
  "dmin a b = (if a = NaN \<or> b = NaN then NaN else if dle a b then a else b)"

definition dmax :: "num \<Rightarrow> num \<Rightarrow> num" where
  "dmax a b = (if a = NaN \<or> b = NaN then NaN else if dle a b then b else a)"

text \<open>The operand of \<^verbatim>\<open>||\<close> is falsy when it is zero or \<^verbatim>\<open>NaN\<close>.\<close>

definition falsy :: "num \<Rightarrow> bool" where
  "falsy a \<longleftrightarrow> a = Fin 0 \<or> a = NaN"

text \<open>
  A store into a \<^verbatim>\<open>Uint8ClampedArray\<close> clamps to \<open>[0, 255]\<close> and rounds to the nearest
  integer, ties to even; \<^verbatim>\<open>NaN\<close> is stored as 0.
\<close>

definition toUint8Clamped :: "rat \<Rightarrow> nat" where
  "toUint8Clamped v =
     (if v \<le> 0 then 0
      else if 255 \<le> v then 255
      else nat (roundEven v))"

fun store_u8 :: "num \<Rightarrow> nat" where
  "store_u8 (Fin r) = toUint8Clamped r"
| "store_u8 PInf = 255"
| "store_u8 NInf = 0"
| "store_u8 NaN = 0"

text \<open>\<^verbatim>\<open>Math.max(0, Math.min(255, v))\<close>\<close>

definition clamp255 :: "num \<Rightarrow> num" where
  "clamp255 v = dmax (Fin 0) (dmin (Fin 255) v)"

text \<open>A byte read from a typed array, as a number.\<close>

definition byte_at :: "nat list \<Rightarrow> nat \<Rightarrow> num" where
  "byte_at d i = (case js_at d i of None \<Rightarrow> NaN | Some b \<Rightarrow> Fin (rat_of_nat b))"

text \<open>The four writes \<^verbatim>\<open>d[o+0] = r; d[o+1] = g; d[o+2] = b; d[o+3] = a\<close>.\<close>

definition putPixel :: "nat list \<Rightarrow> nat \<Rightarrow> nat \<Rightarrow> nat \<Rightarrow> nat \<Rightarrow> nat \<Rightarrow> nat list" where
  "putPixel d o' r g b a = d[o' := r, o' + 1 := g, o' + 2 := b, o' + 3 := a]"

text \<open>The nine \<open>(ky, kx)\<close> of the two nested loops \<^verbatim>\<open>for ky = -1..1, for kx = -1..1\<close>, in order.\<close>

definition taps :: "(int \<times> int) list" where
  "taps = concat (map (\<lambda>ky. map (\<lambda>kx. (ky, kx)) [- 1, 0, 1]) [- 1, 0, 1])"

section \<open>Kernel convolution (App.js, lines 384-419)\<close>

definition kernelFromName :: "string \<Rightarrow> num list" where
  "kernelFromName name =
     map Fin
       (if name = ''Sharpen'' then [0, - 1, 0, - 1, 5, - 1, 0, - 1, 0]
        else if name = ''Blur'' then [1, 1, 1, 1, 1, 1, 1, 1, 1]
        else if name = ''Emboss'' then [- 2, - 1, 0, - 1, 1, 1, 0, 1, 2]
        else [0, 0, 0, 0, 1, 0, 0, 0, 0])"

text \<open>\<^verbatim>\<open>kernel.reduce((a,b)=>a+b,0)||1\<close> and \<^verbatim>\<open>kernel.map(v=>v/sum)\<close>.\<close>

definition kernelSum :: "num list \<Rightarrow> num" where
  "kernelSum kern = (let t = foldl dadd (Fin 0) kern in if falsy t then Fin 1 else t)"

definition normalized :: "num list \<Rightarrow> num list" where
  "normalized kern = map (\<lambda>v. ddiv v (kernelSum kern)) kern"

text \<open>\<^verbatim>\<open>idx = (x,y) => (y*width+x)*4\<close>\<close>

definition idx4 :: "nat \<Rightarrow> nat \<Rightarrow> nat \<Rightarrow> nat" where
  "idx4 w x y = (y * w + x) * 4"

text \<open>
  The accumulation over the 3x3 neighbourhood of \<open>(x, y)\<close>: the state is \<open>(r, g, b, p)\<close>,
  each tap reads \<^verbatim>\<open>k[p++]\<close> and the three colour bytes at \<^verbatim>\<open>idx(x+kx, y+ky)\<close>.
\<close>

definition kernelTap ::
  "num list \<Rightarrow> nat list \<Rightarrow> nat \<Rightarrow> nat \<Rightarrow> nat \<Rightarrow> int \<times> int \<Rightarrow>
   num \<times> num \<times> num \<times> nat \<Rightarrow> num \<times> num \<times> num \<times> nat"
  where
  "kernelTap k src w x y t acc =
     (case (t, acc) of ((ky, kx), (r, g, b, p)) \<Rightarrow>
        (let wt = (case js_at k p of None \<Rightarrow> NaN | Some v \<Rightarrow> v);
             o' = idx4 w (nat (int x + kx)) (nat (int y + ky))
         in (dadd r (dmul wt (byte_at src (o' + 0))),
             dadd g (dmul wt (byte_at src (o' + 1))),
             dadd b (dmul wt (byte_at src (o' + 2))),
             p + 1)))"

definition kernelAcc ::
  "num list \<Rightarrow> nat list \<Rightarrow> nat \<Rightarrow> nat \<Rightarrow> nat \<Rightarrow> num \<times> num \<times> num \<times> nat" where
  "kernelAcc k src w x y = fold (kernelTap k src w x y) taps (Fin 0, Fin 0, Fin 0, 0)"

definition kernelPixel :: "num list \<Rightarrow> nat list \<Rightarrow> nat \<Rightarrow> nat \<Rightarrow> nat \<Rightarrow> nat list \<Rightarrow> nat list" where
  "kernelPixel k src w x y dst =
     (case kernelAcc k src w x y of (r, g, b, p) \<Rightarrow>
        putPixel dst (idx4 w x y)
          (store_u8 (clamp255 r)) (store_u8 (clamp255 g)) (store_u8 (clamp255 b)) 255)"

text \<open>
  The two pixel loops \<^verbatim>\<open>for y = 1 .. height-2\<close>, \<^verbatim>\<open>for x = 1 .. width-2\<close>, and
  \<^verbatim>\<open>putImageData(dst, 0, 0)\<close>, which replaces the whole canvas.
\<close>

definition applyKernel :: "canvas \<Rightarrow> num list \<Rightarrow> dom_error + canvas" where
  "applyKernel cv kern =
     (case getImageData cv of
        Inl e \<Rightarrow> Inl e
      | Inr src \<Rightarrow>
         (case createImageData (width cv) (height cv) of
            Inl e \<Rightarrow> Inl e
          | Inr dst \<Rightarrow>
             (let k = normalized kern;
                  w = width cv;
                  out = fold (\<lambda>y. fold (\<lambda>x. kernelPixel k (data src) w x y) [1 ..< w - 1])
                          [1 ..< height cv - 1] (data dst)
              in Inr (cv\<lparr>data := out\<rparr>))))"


section \<open>Sobel edge detection (App.js, lines 421-453)\<close>

text \<open>
  The luma of a pixel as it is stored into the \<^verbatim>\<open>Uint8ClampedArray\<close> \<^verbatim>\<open>gray\<close>:
  \<^verbatim>\<open>0.299*r+0.587*g+0.114*b\<close> in double arithmetic, the three constants being the
  doubles nearest to the decimal literals. The detector is defined for any conversion
  \<open>lum\<close> from three bytes to the stored byte, and the program's is \<open>luma\<close>.
\<close>

definition luma :: "nat \<Rightarrow> nat \<Rightarrow> nat \<Rightarrow> nat" where
  "luma r g b =
     store_u8 (dadd (dadd (dmul (rd (299 / 1000)) (Fin (rat_of_nat r)))
                          (dmul (rd (587 / 1000)) (Fin (rat_of_nat g))))
                    (dmul (rd (114 / 1000)) (Fin (rat_of_nat b))))"

definition grayAt :: "(nat \<Rightarrow> nat \<Rightarrow> nat \<Rightarrow> nat) \<Rightarrow> nat list \<Rightarrow> nat \<Rightarrow> nat" where
  "grayAt lum d p =
     (case (js_at d (4 * p), js_at d (4 * p + 1), js_at d (4 * p + 2)) of
        (Some r, Some g, Some b) \<Rightarrow> lum r g b
      | _ \<Rightarrow> 0)"

text \<open>\<^verbatim>\<open>for (i=0,p=0; i<src.data.length; i+=4,p++) gray[p] = ...\<close>; a write past the end of
  a typed array is ignored, as is \<open>list_update\<close> past the end of a list.\<close>

definition grayField :: "(nat \<Rightarrow> nat \<Rightarrow> nat \<Rightarrow> nat) \<Rightarrow> nat list \<Rightarrow> nat \<Rightarrow> nat list" where
  "grayField lum d n =
     fold (\<lambda>p gray. gray[p := grayAt lum d p]) [0 ..< (length d + 3) div 4] (replicate n 0)"

definition Gx :: "int list" where
  "Gx = [- 1, 0, 1, - 2, 0, 2, - 1, 0, 1]"

definition Gy :: "int list" where
  "Gy = [- 1, - 2, - 1, 0, 0, 0, 1, 2, 1]"

definition int_add :: "int option \<Rightarrow> int option \<Rightarrow> int option" where
  "int_add a b = (case (a, b) of (Some x, Some y) \<Rightarrow> Some (x + y) | _ \<Rightarrow> None)"

definition sobelTap ::
  "nat list \<Rightarrow> nat \<Rightarrow> nat \<Rightarrow> nat \<Rightarrow> int \<times> int \<Rightarrow>
   int option \<times> int option \<times> nat \<Rightarrow> int option \<times> int option \<times> nat" where
  "sobelTap gray w x y t acc =
     (case (t, acc) of ((ky, kx), (sx, sy, p)) \<Rightarrow>
        (let g = map_option int (js_at gray (nat (int y + ky) * w + nat (int x + kx)))
         in (int_add sx (map_option (\<lambda>v. Gx ! p * v) g),
             int_add sy (map_option (\<lambda>v. Gy ! p * v) g),
             p + 1)))"

definition sobelAcc :: "nat list \<Rightarrow> nat \<Rightarrow> nat \<Rightarrow> nat \<Rightarrow> int option \<times> int option \<times> nat" where
  "sobelAcc gray w x y = fold (sobelTap gray w x y) taps (Some 0, Some 0, 0)"

text \<open>
  \<^verbatim>\<open>Math.min(255, Math.hypot(sx, sy))\<close> as it is stored into the output bytes: for
  integers \<open>sx\<close>, \<open>sy\<close> the square root of \<open>n = sx\<^sup>2 + sy\<^sup>2\<close> is never half-way between two
  integers, and it rounds to \<open>k\<close> exactly when \<open>k\<^sup>2 - k < n \<le> k\<^sup>2 + k\<close>.
\<close>

definition hypot_u8 :: "int \<Rightarrow> int \<Rightarrow> nat" where
  "hypot_u8 sx sy =
     (let n = nat (sx * sx + sy * sy)
      in case find (\<lambda>k. n \<le> k * k + k) [0 ..< 255] of Some k \<Rightarrow> k | None \<Rightarrow> 255)"

definition sobelMag :: "int option \<Rightarrow> int option \<Rightarrow> nat" where
  "sobelMag sx sy = (case (sx, sy) of (Some a, Some b) \<Rightarrow> hypot_u8 a b | _ \<Rightarrow> 0)"

definition sobelPixel :: "nat list \<Rightarrow> nat \<Rightarrow> nat \<Rightarrow> nat \<Rightarrow> nat list \<Rightarrow> nat list" where
  "sobelPixel gray w x y out =
     (case sobelAcc gray w x y of (sx, sy, p) \<Rightarrow>
        (let mag = sobelMag sx sy
         in putPixel out ((y * w + x) * 4) mag mag mag 255))"

definition applySobelWith :: "(nat \<Rightarrow> nat \<Rightarrow> nat \<Rightarrow> nat) \<Rightarrow> canvas \<Rightarrow> dom_error + canvas" where
  "applySobelWith lum cv =
     (case getImageData cv of
        Inl e \<Rightarrow> Inl e
      | Inr src \<Rightarrow>
         (let w = width cv;
              gray = grayField lum (data src) (w * height cv)
          in case createImageData w (height cv) of
               Inl e \<Rightarrow> Inl e
             | Inr out \<Rightarrow>
                 Inr (cv\<lparr>data :=
                   fold (\<lambda>y. fold (\<lambda>x. sobelPixel gray w x y) [1 ..< w - 1])
                     [1 ..< height cv - 1] (data out)\<rparr>)))"

definition applySobel :: "canvas \<Rightarrow> dom_error + canvas" where
  "applySobel = applySobelWith luma"

section \<open>The draw pipeline (App.js, lines 154-165 and 316-381)\<close>

text \<open>The filter values \<^verbatim>\<open>f\<close>; each is a JavaScript number.\<close>

record filters =
  brightness :: rat
  contrast :: rat
  saturation :: rat
  hue :: rat
  grayscale :: rat
  sepia :: rat
  invert :: rat
  blur :: rat
  pixelate :: rat

definition defaultFilters :: filters where
  "defaultFilters = \<lparr>brightness = 100, contrast = 100, saturation = 100, hue = 0,
     grayscale = 0, sepia = 0, invert = 0, blur = 0, pixelate = 1\<rparr>"

text \<open>
  \<^verbatim>\<open>cssFilter()\<close> builds the filter string from eight of the values; the string is
  represented by the list of the numbers it contains, in the order it names them.
\<close>

definition cssFilter :: "filters \<Rightarrow> rat list" where
  "cssFilter f =
     [brightness f, contrast f, saturation f, hue f, grayscale f, sepia f, invert f, blur f]"

definition isNoOp :: "filters \<Rightarrow> bool" where
  "isNoOp f \<longleftrightarrow>
     brightness f = 100 \<and> contrast f = 100 \<and> saturation f = 100 \<and>
     hue f = 0 \<and> grayscale f = 0 \<and> sepia f = 0 \<and> invert f = 0 \<and> blur f = 0"

text \<open>
  The 2D canvas of the browser is not code of the repository. It is modelled after the
  HTML standard (\<^verbatim>\<open>drawImage\<close>) and the Filter Effects standard (the filter functions);
  what the standards leave to the implementation is a parameter of the model, the record
  \<open>platform\<close>.

  \<^item> A picture is the list of bytes that \<^verbatim>\<open>getImageData\<close> reads from a canvas holding it.
    A draw copies or combines stored pixels, so a copied pixel reads as the pixel it was
    copied from; the image \<open>img\<close> is the picture that a draw at its natural size gives.
  \<^item> With \<^verbatim>\<open>imageSmoothingEnabled\<close> false a scaled draw takes for every target pixel the
    source pixel that contains the image of its centre (nearest neighbour). When that point
    lies on the border of two source pixels, browsers differ in the pixel they take:
    \<open>tieUp P v ss ds k\<close> tells whether the platform takes the upper one, for the target
    coordinate \<open>k\<close>, scaling \<open>ss\<close> pixels to \<open>ds\<close>, vertically (\<open>v\<close>) or horizontally.
  \<^item> With \<^verbatim>\<open>imageSmoothingEnabled\<close> true a draw at the size of the source copies it; for
    any other size the bytes are \<open>resample P src dw dh\<close>.
  \<^item> The Filter Effects standard says of \<^verbatim>\<open>brightness(100%)\<close>, \<^verbatim>\<open>contrast(100%)\<close>,
    \<^verbatim>\<open>saturate(100%)\<close>, \<^verbatim>\<open>hue-rotate(0deg)\<close>, \<^verbatim>\<open>grayscale(0%)\<close>, \<^verbatim>\<open>sepia(0%)\<close>,
    \<^verbatim>\<open>invert(0%)\<close> and \<^verbatim>\<open>blur(0px)\<close>, each, that it leaves the input unchanged. For any
    other filter list the bytes are \<open>filterEffect P fl cv\<close>.
\<close>

record platform =
  tieUp :: "bool \<Rightarrow> nat \<Rightarrow> nat \<Rightarrow> nat \<Rightarrow> bool"
  resample :: "canvas \<Rightarrow> nat \<Rightarrow> nat \<Rightarrow> nat list"
  filterEffect :: "rat list \<Rightarrow> canvas \<Rightarrow> nat list"

definition pixelAt :: "canvas \<Rightarrow> nat \<Rightarrow> nat \<Rightarrow> nat list" where
  "pixelAt cv x y = take 4 (drop (idx4 (width cv) x y) (data cv))"

text \<open>
  The centre of the target pixel \<open>k\<close> is at \<open>k + 1/2\<close>, its image in the source at
  \<open>(2 * k + 1) * ss / (2 * ds)\<close>; the source pixel \<open>c\<close> covers the interval from \<open>c\<close> to
  \<open>c + 1\<close>.
\<close>

definition nearestIndex :: "platform \<Rightarrow> bool \<Rightarrow> nat \<Rightarrow> nat \<Rightarrow> nat \<Rightarrow> nat" where
  "nearestIndex P v ss ds k =
     (let n = (2 * k + 1) * ss; c = n div (2 * ds)
      in if n mod (2 * ds) = 0 \<and> \<not> tieUp P v ss ds k then c - 1 else c)"

definition nearestDraw :: "platform \<Rightarrow> canvas \<Rightarrow> nat \<Rightarrow> nat \<Rightarrow> canvas" where
  "nearestDraw P src dw dh =
     \<lparr>width = dw, height = dh,
      data = concat (map (\<lambda>y. concat (map (\<lambda>x.
               pixelAt src (nearestIndex P False (width src) dw x)
                           (nearestIndex P True (height src) dh y)) [0 ..< dw])) [0 ..< dh])\<rparr>"

definition smoothDraw :: "platform \<Rightarrow> canvas \<Rightarrow> nat \<Rightarrow> nat \<Rightarrow> canvas" where
  "smoothDraw P src dw dh =
     (if dw = width src \<and> dh = height src then src
      else \<lparr>width = dw, height = dh, data = resample P src dw dh\<rparr>)"

definition neutralFilter :: "rat list" where
  "neutralFilter = [100, 100, 100, 0, 0, 0, 0, 0]"

definition applyFilter :: "platform \<Rightarrow> rat list \<Rightarrow> canvas \<Rightarrow> canvas" where
  "applyFilter P fl cv = (if fl = neutralFilter then cv else cv\<lparr>data := filterEffect P fl cv\<rparr>)"

text \<open>
  Lines 334-345: the floored factor, the size of the small canvas and the unsmoothed draw
  of the image into it. The canvas dimensions and the factor are integers below \<open>2^32\<close>,
  for which the floor of the double quotient is the floor of the quotient.
\<close>

definition smallCanvas :: "platform \<Rightarrow> canvas \<Rightarrow> rat \<Rightarrow> nat \<Rightarrow> nat \<Rightarrow> canvas" where
  "smallCanvas P img p W H =
     (let factor = max 1 \<lfloor>p\<rfloor>;
          tw = max 1 (nat \<lfloor>rat_of_nat W / rat_of_int factor\<rfloor>);
          th = max 1 (nat \<lfloor>rat_of_nat H / rat_of_int factor\<rfloor>)
      in nearestDraw P img tw th)"

text \<open>Lines 348-350: the small canvas drawn back onto the full one, unsmoothed.\<close>

definition pixelateStep :: "platform \<Rightarrow> canvas \<Rightarrow> rat \<Rightarrow> nat \<Rightarrow> nat \<Rightarrow> canvas" where
  "pixelateStep P img p W H = nearestDraw P (smallCanvas P img p W H) W H"

text \<open>
  Lines 357-369: the pixelated canvas is drawn through the filter onto the large
  temporary canvas, which has its size, and that canvas is drawn back. \<^verbatim>\<open>drawImage\<close>
  raises \<^verbatim>\<open>InvalidStateError\<close> for a source canvas with a zero dimension.
\<close>

definition filterPass :: "platform \<Rightarrow> filters \<Rightarrow> canvas \<Rightarrow> dom_error + canvas" where
  "filterPass P f cv =
     (if width cv = 0 \<or> height cv = 0 then Inl InvalidStateError
      else (let tLarge = applyFilter P (cssFilter f) (smoothDraw P cv (width cv) (height cv))
            in Inr (smoothDraw P tLarge (width cv) (height cv))))"

text \<open>Lines 332-375, for a canvas of width \<open>W\<close> and height \<open>H\<close>.\<close>

definition drawBase :: "platform \<Rightarrow> canvas \<Rightarrow> filters \<Rightarrow> nat \<Rightarrow> nat \<Rightarrow> dom_error + canvas" where
  "drawBase P img f W H =
     (if pixelate f > 1
      then (let pix = pixelateStep P img (pixelate f) W H
            in if \<not> isNoOp f then filterPass P f pix else Inr pix)
      else Inr (applyFilter P (cssFilter f) (smoothDraw P img W H)))"

text \<open>Lines 377-379.\<close>

definition postEffects :: "bool \<Rightarrow> string \<Rightarrow> canvas \<Rightarrow> dom_error + canvas" where
  "postEffects edgeDetect kernelName cv =
     (case (if edgeDetect then applySobel cv else Inr cv) of
        Inl e \<Rightarrow> Inl e
      | Inr c1 \<Rightarrow>
          if kernelName \<noteq> ''None'' then applyKernel c1 (kernelFromName kernelName) else Inr c1)"

text \<open>
  \<^verbatim>\<open>drawFull\<close>: \<open>img\<close> and \<open>cvs\<close> are the image and the full canvas, \<open>None\<close> for
  \<^verbatim>\<open>null\<close>; the result is the full canvas afterwards.
\<close>

definition drawFull ::
  "platform \<Rightarrow> canvas option \<Rightarrow> filters \<Rightarrow> bool \<Rightarrow> string \<Rightarrow> bool \<Rightarrow> canvas option \<Rightarrow>
   dom_error + canvas option" where
  "drawFull P img f edgeDetect kernelName showOriginal cvs =
     (case (img, cvs) of
        (Some i, Some c) \<Rightarrow>
          (if showOriginal then Inr (Some (smoothDraw P i (width c) (height c)))
           else (case drawBase P i f (width c) (height c) of
                   Inl e \<Rightarrow> Inl e
                 | Inr b \<Rightarrow>
                     (case postEffects edgeDetect kernelName b of
                        Inl e \<Rightarrow> Inl e
                      | Inr r \<Rightarrow> Inr (Some r))))
      | _ \<Rightarrow> Inr cvs)"

subsection \<open>The pipeline of the specification\<close>

text \<open>
  The pixelation of the specification (section 4.2), in its words: for a factor of at
  most 1 the source itself; otherwise the source scaled down to
  \<open>max(1, floor(width/factor))\<close> by \<open>max(1, floor(height/factor))\<close> and back up to its
  own size, by nearest neighbour both times. The factor handed to it is the pixelate
  value floored and raised to 1 (sections 3 and 7); tone mapping is the filter chain of
  the parameter set. They are compared with what the code draws.
\<close>

definition pixelate_spec :: "platform \<Rightarrow> canvas \<Rightarrow> rat \<Rightarrow> canvas" where
  "pixelate_spec P src factor =
     (if factor \<le> 1 then src
      else (let tw = max 1 (nat \<lfloor>rat_of_nat (width src) / factor\<rfloor>);
                th = max 1 (nat \<lfloor>rat_of_nat (height src) / factor\<rfloor>)
            in nearestDraw P (nearestDraw P src tw th) (width src) (height src)))"

definition factor_spec :: "filters \<Rightarrow> rat" where
  "factor_spec f = rat_of_int (max 1 \<lfloor>pixelate f\<rfloor>)"

definition toneMap_spec :: "platform \<Rightarrow> filters \<Rightarrow> canvas \<Rightarrow> canvas" where
  "toneMap_spec P f buf = applyFilter P (cssFilter f) buf"

text \<open>
  A platform to run the pipeline on: on a border it takes the lower pixel, it scales by
  nearest neighbour also when smoothing, and of the colour filters it carries out a full
  \<^verbatim>\<open>invert(100%)\<close> only, on the three colour bytes of every pixel.
\<close>

definition invertBytes :: "nat list \<Rightarrow> nat list" where
  "invertBytes d = map (\<lambda>(i, v). if i mod 4 = 3 then v else 255 - v) (enumerate 0 d)"

definition invertOnly :: platform where
  "invertOnly =
     \<lparr>tieUp = (\<lambda>v ss ds k. False),
      resample = (\<lambda>src dw dh.
         data (nearestDraw \<lparr>tieUp = (\<lambda>v ss ds k. False), resample = (\<lambda>src dw dh. []),
                             filterEffect = (\<lambda>fl cv. [])\<rparr> src dw dh)),
      filterEffect = (\<lambda>fl cv. if fl = [100, 100, 100, 0, 0, 0, 100, 0] then invertBytes (data cv)
                               else data cv)\<rparr>"

section \<open>Sample canvases\<close>

definition sample3x3 :: canvas where
  "sample3x3 = \<lparr>width = 3, height = 3, data =
     [0, 1, 2, 200,  10, 11, 12, 200,  20, 21, 22, 200,
      30, 31, 32, 200,  40, 41, 42, 200,  50, 51, 52, 200,
      60, 61, 62, 200,  70, 71, 72, 200,  80, 81, 82, 200]\<rparr>"


definition sample2x2 :: canvas where
  "sample2x2 = \<lparr>width = 2, height = 2, data =
     [10, 20, 30, 255,  40, 50, 60, 255,  70, 80, 90, 255,  100, 110, 120, 255]\<rparr>"

definition uniform3x3 :: canvas where
  "uniform3x3 = \<lparr>width = 3, height = 3, data =
     [10, 20, 30, 40,  10, 20, 30, 40,  10, 20, 30, 40,
      10, 20, 30, 40,  10, 20, 30, 40,  10, 20, 30, 40,
      10, 20, 30, 40,  10, 20, 30, 40,  10, 20, 30, 40]\<rparr>"

section \<open>Properties of the history\<close>

lemma js_slice_prefix:
  "0 \<le> e \<Longrightarrow> js_slice xs 0 e = take (nat e) xs"
  by (simp add: js_slice_def js_rel_index_def Let_def min_def)

lemma js_slice_from_last:
  "0 < k \<Longrightarrow> js_slice_from xs (- int k) = drop (length xs - k) xs"
  by (auto simp add: js_slice_from_def js_slice_def js_rel_index_def Let_def max_def nat_diff_distrib')

lemma hist_inv_push: "hist_inv s \<Longrightarrow> hist_inv (pushHistory (hIndex s) s)"
  by (auto simp add: hist_inv_def pushHistory_def js_slice_prefix
      js_slice_from_last [of 20, simplified] Let_def split: option.splits)

lemma hist_inv_undo: "hist_inv s \<Longrightarrow> hist_inv (snd (undo s))"
  by (auto simp add: hist_inv_def undo_def restoreFromDataURL_def Let_def split: option.splits)

lemma hist_inv_redo: "hist_inv s \<Longrightarrow> hist_inv (snd (redo s))"
  by (auto simp add: hist_inv_def redo_def restoreFromDataURL_def Let_def split: option.splits)

lemma hist_inv_step: "hist_inv s \<Longrightarrow> hist_inv (step s a)"
  by (cases a) (simp_all add: hist_inv_push hist_inv_undo hist_inv_redo, simp add: hist_inv_def)

lemma hist_inv_run: "hist_inv s \<Longrightarrow> hist_inv (run acts s)"
  unfolding run_def by (induction acts arbitrary: s) (simp_all add: hist_inv_step)

lemma hist_inv_init: "hist_inv init_app"
  by (simp add: hist_inv_def init_app_def)

text \<open>
  As long as every push is made by a callback of the latest render (the Snapshot
  button), the cursor stays in \<open>[-1, length - 1]\<close> and there are at most 20 entries.
\<close>

lemma hist_inv_fresh_runs: "hist_inv (run acts init_app)"
  by (simp add: hist_inv_run hist_inv_init)

text \<open>
  Claim C4. The invariant is what the specification asks for, and the code breaks it
  through the stale closure of the \<^verbatim>\<open>onload\<close> handler: the first image is loaded (entry
  \<open>0\<close>, cursor 0); the URL of a second image is set, and its handler captures
  \<^verbatim>\<open>hIndex = 0\<close>; before the image arrives the user takes a snapshot (two entries, cursor
  1); the handler then pushes with the captured index, which leaves the two entries
  \<open>[0, 5]\<close>, and moves the live cursor to 2, past the last entry.
\<close>

theorem stale_onload_push_breaks_invariant:
  "run_ev [SetUrl, Onload 0, SetUrl, Act Snapshot, Onload 5] (init_app, - 1)
     = (\<lparr>full = Some (5::nat), history = [0, 5], hIndex = 2\<rparr>, 0)
   \<and> \<not> hist_inv (fst (run_ev [SetUrl, Onload 0, SetUrl, Act Snapshot, Onload 5]
                           (init_app :: nat app, - 1)))"
proof -
  have r: "run_ev [SetUrl, Onload 0, SetUrl, Act Snapshot, Onload 5] (init_app, - 1)
     = (\<lparr>full = Some (5::nat), history = [0, 5], hIndex = 2\<rparr>, 0)"
    by (simp add: run_ev_def init_app_def pushHistory_def js_slice_def js_slice_from_def
        js_rel_index_def)
  show ?thesis unfolding r by (simp add: hist_inv_def)
qed

lemma push_at_end:
  assumes "hist_inv s" and "hIndex s = int (length (history s)) - 1"
  shows "pushHistory (hIndex s) (s\<lparr>full := Some c\<rparr>) =
           s\<lparr>full := Some c,
             history := drop (Suc (length (history s)) - 20) (history s @ [c]),
             hIndex := int (min (Suc (length (history s))) 20) - 1\<rparr>"
  using assms
  by (simp add: hist_inv_def pushHistory_def js_slice_prefix
      js_slice_from_last [of 20, simplified] Let_def)

lemma run_snapshots:
  assumes "hist_inv s" and "hIndex s = int (length (history s)) - 1"
  shows "run (snapshots xs) s =
           s\<lparr>full := (if xs = [] then full s else Some (last xs)),
             history := drop (length (history s @ xs) - 20) (history s @ xs),
             hIndex := int (min (length (history s @ xs)) 20) - 1\<rparr>"
  using assms
proof (induction xs arbitrary: s)
  case Nil
  then show ?case by (simp add: snapshots_def run_def hist_inv_def)
next
  case (Cons x xs)
  let ?t = "pushHistory (hIndex s) (s\<lparr>full := Some x\<rparr>)"
  have inv0: "hist_inv (s\<lparr>full := Some x\<rparr>)" using Cons.prems by (simp add: hist_inv_def)
  have t: "?t = s\<lparr>full := Some x,
             history := drop (Suc (length (history s)) - 20) (history s @ [x]),
             hIndex := int (min (Suc (length (history s))) 20) - 1\<rparr>"
    using Cons.prems by (rule push_at_end)
  have inv: "hist_inv ?t" using hist_inv_push [OF inv0] by simp
  have cur: "hIndex ?t = int (length (history ?t)) - 1"
    by (subst (1 2) t) (simp add: min_def)
  have "run (snapshots (x # xs)) s = run (snapshots xs) ?t"
    by (simp add: snapshots_def run_def)
  also have "\<dots> = ?t\<lparr>full := (if xs = [] then full ?t else Some (last xs)),
             history := drop (length (history ?t @ xs) - 20) (history ?t @ xs),
             hIndex := int (min (length (history ?t @ xs)) 20) - 1\<rparr>"
    using inv cur by (rule Cons.IH)
  also have "\<dots> = s\<lparr>full := (if x # xs = [] then full s else Some (last (x # xs))),
             history := drop (length (history s @ x # xs) - 20) (history s @ x # xs),
             hIndex := int (min (length (history s @ x # xs)) 20) - 1\<rparr>"
  proof (cases "length (history s) = 20")
    case True
    then show ?thesis by (subst (1 2 3 4 5) t) simp
  next
    case False
    then have "length (history s) < 20" using Cons.prems(1) by (simp add: hist_inv_def)
    then show ?thesis by (subst (1 2 3 4 5) t) simp
  qed
  finally show ?case .
qed

text \<open>
  Claim C5. Pushing any 25 snapshots \<open>xs\<close> onto the fresh history leaves exactly 20
  entries, namely \<open>xs\<close> without its first five, and the cursor (19) points at the newest.
\<close>

theorem push_25_keeps_20:
  assumes "length xs = 25"
  shows "run (snapshots xs) init_app =
           \<lparr>full = Some (last xs), history = drop 5 xs, hIndex = 19\<rparr>
         \<and> length (history (run (snapshots xs) init_app)) = 20
         \<and> js_nth (history (run (snapshots xs) init_app)) (hIndex (run (snapshots xs) init_app))
             = Some (last xs)"
proof -
  have ne: "xs \<noteq> []" using assms by auto
  have "run (snapshots xs) init_app = \<lparr>full = Some (last xs), history = drop 5 xs, hIndex = 19\<rparr>"
    using run_snapshots [of init_app xs] assms ne
    by (simp add: hist_inv_def init_app_def)
  moreover have "drop 5 xs ! 19 = last xs"
    using assms ne by (simp add: last_conv_nth)
  ultimately show ?thesis using assms by (simp add: js_nth_def)
qed

theorem push_25_keeps_20_witness:
  "length [1 ..< 26 :: nat] = 25 \<and>
   run (snapshots [1 ..< 26 :: nat]) init_app =
     \<lparr>full = Some 25, history = [6 ..< 26], hIndex = 19\<rparr>"
  using push_25_keeps_20 [of "[1 ..< 26 :: nat]"] by (simp add: drop_upt)

text \<open>
  A push made by a callback of the latest render keeps the entries up to the cursor,
  appends the new one and drops every entry after the cursor; a redo then changes nothing.
\<close>

lemma fresh_push_discards_redo:
  assumes "hist_inv s" and "hIndex s < int (length (history s)) - 1" and "full s = Some c"
  shows "history (pushHistory (hIndex s) s) = take (nat (hIndex s + 1)) (history s) @ [c]
         \<and> redo (pushHistory (hIndex s) s) = (NotCalled, pushHistory (hIndex s) s)"
proof -
  have h: "history (pushHistory (hIndex s) s) = take (nat (hIndex s + 1)) (history s) @ [c]"
    using assms
    by (auto simp add: hist_inv_def pushHistory_def js_slice_prefix
        js_slice_from_last [of 20, simplified] Let_def)
  have i: "hIndex (pushHistory (hIndex s) s) = hIndex s + 1"
    using assms by (auto simp add: hist_inv_def pushHistory_def Let_def)
  have l: "int (length (history (pushHistory (hIndex s) s))) = hIndex s + 2"
    using assms by (subst h) (auto simp add: hist_inv_def)
  show ?thesis using h i l by (simp add: redo_def)
qed

text \<open>
  Claim C6. The redo branch is meant to be destroyed by a push, and the code misses it for
  the push of the \<^verbatim>\<open>onload\<close> handler: with the entries \<open>[0, 5, 5]\<close> and the cursor at 2 a
  new URL is set (the handler captures 2), the user undoes twice (cursor 0), and the
  handler pushes \<open>7\<close>. The slice is taken with the captured index, so no entry is
  discarded: the history is \<open>[0, 5, 5, 7]\<close> with the cursor at 1, and a redo restores the
  old entry \<open>5\<close>.
\<close>

theorem stale_onload_push_keeps_redo:
  "run_ev [SetUrl, Onload 0, Act (Draw 5), Act Snapshot, Act Snapshot,
           SetUrl, Act Undo, Act Undo, Onload 7] (init_app, - 1)
     = (\<lparr>full = Some (7::nat), history = [0, 5, 5, 7], hIndex = 1\<rparr>, 2)
   \<and> redo \<lparr>full = Some (7::nat), history = [0, 5, 5, 7], hIndex = 1\<rparr>
     = (Restored (Some 5), \<lparr>full = Some 5, history = [0, 5, 5, 7], hIndex = 2\<rparr>)"
  by (simp add: run_ev_def init_app_def pushHistory_def js_slice_def js_slice_from_def
      js_rel_index_def undo_def redo_def restoreFromDataURL_def js_nth_def Let_def)




section \<open>Properties of the pixel loops\<close>

lemma fold_product:
  "fold (\<lambda>y. fold (\<lambda>x. f y x) xs) ys = fold (\<lambda>(y, x). f y x) (List.product ys xs)"
  by (induction ys) (simp_all add: fold_map comp_def)

lemma length_putPixel [simp]: "length (putPixel d o' r g b a) = length d"
  by (simp add: putPixel_def)

lemma nth_putPixel_same:
  "o' + 3 < length d \<Longrightarrow> c < 4 \<Longrightarrow> putPixel d o' r g b a ! (o' + c) = [r, g, b, a] ! c"
proof -
  assume a: "o' + 3 < length d" "c < 4"
  then consider "c = 0" | "c = 1" | "c = 2" | "c = 3" by linarith
  then show ?thesis using a(1) by cases (simp_all add: putPixel_def)
qed

lemma nth_putPixel_other:
  "i < o' \<or> o' + 3 < i \<Longrightarrow> putPixel d o' r g b a ! i = d ! i"
  by (auto simp add: putPixel_def)

lemma pixel_offsets_apart:
  "q \<noteq> q' \<Longrightarrow> c < 4 \<Longrightarrow> q * 4 + c < q' * 4 \<or> q' * 4 + 3 < q * 4 + (c::nat)"
  by arith

lemma fold_putPixel_length:
  "length (fold (\<lambda>k d. putPixel d (off k * 4) (R k) (G k) (B k) (A k)) ks d) = length d"
  by (induction ks arbitrary: d) simp_all

lemma fold_putPixel_other:
  "q \<notin> off ` set ks \<Longrightarrow> c < 4 \<Longrightarrow>
   fold (\<lambda>k d. putPixel d (off k * 4) (R k) (G k) (B k) (A k)) ks d ! (q * 4 + c) = d ! (q * 4 + c)"
proof (induction ks arbitrary: d)
  case Nil
  then show ?case by simp
next
  case (Cons k ks)
  then have "q \<noteq> off k" and "q \<notin> off ` set ks" by auto
  then show ?case
    using Cons.IH [of "putPixel d (off k * 4) (R k) (G k) (B k) (A k)"] Cons.prems(2)
      pixel_offsets_apart [of q "off k" c]
    by (simp add: nth_putPixel_other)
qed

lemma fold_putPixel_hit:
  "distinct (map off ks) \<Longrightarrow> k \<in> set ks \<Longrightarrow> off k * 4 + 3 < length d \<Longrightarrow> c < 4 \<Longrightarrow>
   fold (\<lambda>k d. putPixel d (off k * 4) (R k) (G k) (B k) (A k)) ks d ! (off k * 4 + c)
     = [R k, G k, B k, A k] ! c"
proof (induction ks arbitrary: d)
  case Nil
  then show ?case by simp
next
  case (Cons j ks)
  show ?case
  proof (cases "k \<in> set ks")
    case True
    then show ?thesis using Cons.IH [of "putPixel d (off j * 4) (R j) (G j) (B j) (A j)"] Cons.prems
      by simp
  next
    case False
    then have kj: "k = j" using Cons.prems(2) by simp
    have "off k \<notin> off ` set ks" using Cons.prems(1) kj by simp
    then show ?thesis
      using fold_putPixel_other [of "off k" off ks c R G B A "putPixel d (off j * 4) (R j) (G j) (B j) (A j)"]
        Cons.prems(3,4) kj
      by (simp add: nth_putPixel_same)
  qed
qed

lemma pixel_index_inj:
  "x < w \<Longrightarrow> x' < w \<Longrightarrow> y * w + x = y' * w + x' \<Longrightarrow> y = y' \<and> x = (x'::nat)"
proof -
  assume a: "x < w" "x' < w" "y * w + x = y' * w + x'"
  have "(y * w + x) div w = (y' * w + x') div w" using a(3) by simp
  then have "y = y'" using a(1,2) by simp
  then show ?thesis using a(3) by simp
qed

lemma pixel_index_bound:
  "x < w \<Longrightarrow> y < h \<Longrightarrow> c < 4 \<Longrightarrow> (y * w + x) * 4 + c < 4 * w * (h::nat)"
proof -
  assume a: "x < w" "y < h" "c < 4"
  have "y * w + x < (y + 1) * w" using a(1) by simp
  also have "\<dots> \<le> h * w" using a(2) by (intro mult_le_mono1) simp
  finally have "y * w + x < w * h" by (simp add: mult.commute)
  then show ?thesis using a(3) by simp
qed


section \<open>Properties of the double arithmetic\<close>







section \<open>Properties of the convolution\<close>

lemma upt_9: "[0 ..< 9] = [0, 1, 2, 3, 4, 5, 6, 7, 8::nat]"
  by (simp add: upt_rec)

lemma js_at_in_range: "i < length xs \<Longrightarrow> js_at xs i = Some (xs ! i)"
  by (simp add: js_at_def)


lemma sum_list_upt_Suc_shift:
  "(\<Sum>i\<leftarrow>[0 ..< Suc n]. f i) = f 0 + (\<Sum>i\<leftarrow>[0 ..< n]. f (Suc i))"
proof -
  have "[0 ..< Suc n] = 0 # map Suc [0 ..< n]"
    by (simp add: upt_conv_Cons map_Suc_upt del: upt_Suc)
  then show ?thesis by (simp add: comp_def del: upt_Suc)
qed




lemma length_taps: "length taps = 9"
  by (simp add: taps_def)

lemma set_taps: "t \<in> set taps \<Longrightarrow> fst t \<in> {- 1, 0, 1} \<and> snd t \<in> {- 1, 0, 1}"
  by (auto simp add: taps_def)


subsection \<open>The two pixel loops write exactly the interior pixels\<close>

lemma pixel_loops:
  fixes R G B A :: "nat \<Rightarrow> nat \<Rightarrow> nat"
  assumes len: "length d = 4 * w * h"
  shows "length (fold (\<lambda>y. fold (\<lambda>x dst. putPixel dst ((y * w + x) * 4) (R x y) (G x y) (B x y) (A x y))
            [1 ..< w - 1]) [1 ..< h - 1] d) = length d"
    and "1 \<le> x \<Longrightarrow> x + 1 < w \<Longrightarrow> 1 \<le> y \<Longrightarrow> y + 1 < h \<Longrightarrow> c < 4 \<Longrightarrow>
         fold (\<lambda>y. fold (\<lambda>x dst. putPixel dst ((y * w + x) * 4) (R x y) (G x y) (B x y) (A x y))
            [1 ..< w - 1]) [1 ..< h - 1] d ! ((y * w + x) * 4 + c) = [R x y, G x y, B x y, A x y] ! c"
    and "x < w \<Longrightarrow> \<not> (1 \<le> x \<and> x + 1 < w \<and> 1 \<le> y \<and> y + 1 < h) \<Longrightarrow> c < 4 \<Longrightarrow>
         fold (\<lambda>y. fold (\<lambda>x dst. putPixel dst ((y * w + x) * 4) (R x y) (G x y) (B x y) (A x y))
            [1 ..< w - 1]) [1 ..< h - 1] d ! ((y * w + x) * 4 + c) = d ! ((y * w + x) * 4 + c)"
proof -
  let ?ks = "List.product [1 ..< h - 1] [1 ..< w - 1]"
  let ?off = "\<lambda>(y, x). y * w + x"
  let ?F = "\<lambda>k dst. putPixel dst (?off k * 4) (case k of (y, x) \<Rightarrow> R x y) (case k of (y, x) \<Rightarrow> G x y)
              (case k of (y, x) \<Rightarrow> B x y) (case k of (y, x) \<Rightarrow> A x y)"
  have eq: "fold (\<lambda>y. fold (\<lambda>x dst. putPixel dst ((y * w + x) * 4) (R x y) (G x y) (B x y) (A x y))
            [1 ..< w - 1]) [1 ..< h - 1] = fold ?F ?ks"
  proof -
    have "(\<lambda>(y, x) dst. putPixel dst ((y * w + x) * 4) (R x y) (G x y) (B x y) (A x y)) = ?F"
      by (rule ext) (simp add: split_beta)
    then show ?thesis
      using fold_product [of "\<lambda>y x dst. putPixel dst ((y * w + x) * 4) (R x y) (G x y) (B x y) (A x y)"
          "[1 ..< w - 1]" "[1 ..< h - 1]"]
      by simp
  qed
  have inj: "inj_on ?off (set ?ks)"
  proof (rule inj_onI)
    fix k k' assume k: "k \<in> set ?ks" "k' \<in> set ?ks" and e: "?off k = ?off k'"
    obtain y x y' x' where kk: "k = (y, x)" "k' = (y', x')" by (cases k, cases k')
    have "x < w" "x' < w" using k kk by auto
    then have "y = y' \<and> x = x'" using pixel_index_inj [of x w x' y y'] e kk by simp
    then show "k = k'" using kk by simp
  qed
  have dist: "distinct (map ?off ?ks)"
    using inj by (simp add: distinct_map distinct_product)
  show "length (fold (\<lambda>y. fold (\<lambda>x dst. putPixel dst ((y * w + x) * 4) (R x y) (G x y) (B x y) (A x y))
            [1 ..< w - 1]) [1 ..< h - 1] d) = length d"
    unfolding eq by (rule fold_putPixel_length)
  show "fold (\<lambda>y. fold (\<lambda>x dst. putPixel dst ((y * w + x) * 4) (R x y) (G x y) (B x y) (A x y))
            [1 ..< w - 1]) [1 ..< h - 1] d ! ((y * w + x) * 4 + c) = [R x y, G x y, B x y, A x y] ! c"
    if "1 \<le> x" "x + 1 < w" "1 \<le> y" "y + 1 < h" "c < 4"
  proof -
    have mem: "(y, x) \<in> set ?ks" using that by auto
    have "(y * w + x) * 4 + 3 < 4 * w * h"
      using pixel_index_bound [of x w y h 3] that by simp
    then have "?off (y, x) * 4 + 3 < length d" using len by simp
    then show ?thesis
      unfolding eq using fold_putPixel_hit [OF dist mem _ that(5), of d] by simp
  qed
  show "fold (\<lambda>y. fold (\<lambda>x dst. putPixel dst ((y * w + x) * 4) (R x y) (G x y) (B x y) (A x y))
            [1 ..< w - 1]) [1 ..< h - 1] d ! ((y * w + x) * 4 + c) = d ! ((y * w + x) * 4 + c)"
    if "x < w" "\<not> (1 \<le> x \<and> x + 1 < w \<and> 1 \<le> y \<and> y + 1 < h)" "c < 4"
  proof -
    have "y * w + x \<notin> ?off ` set ?ks"
    proof
      assume "y * w + x \<in> ?off ` set ?ks"
      then obtain y' x' where m: "(y', x') \<in> set ?ks" and e: "y * w + x = y' * w + x'" by auto
      have "x' < w" using m by auto
      then have "y = y' \<and> x = x'" using pixel_index_inj [OF that(1) _ e] by simp
      then show False using m that(2) by auto
    qed
    then show ?thesis
      unfolding eq using fold_putPixel_other [of "y * w + x" ?off ?ks c _ _ _ _ d] that(3) by simp
  qed
qed



lemma applyKernel_positive:
  assumes "0 < width cv" "0 < height cv"
  shows "applyKernel cv kern = Inr (cv\<lparr>data :=
           fold (\<lambda>y. fold (\<lambda>x. kernelPixel (normalized kern) (data cv) (width cv) x y)
                  [1 ..< width cv - 1]) [1 ..< height cv - 1]
             (replicate (4 * width cv * height cv) 0)\<rparr>)"
  using assms by (simp add: applyKernel_def getImageData_def createImageData_def Let_def)



section \<open>Properties of the Sobel detector\<close>

lemma fold_update_nth:
  "q < length g \<Longrightarrow> fold (\<lambda>p g. g[p := f p]) ps g ! q = (if q \<in> set ps then f q else g ! q)"
  by (induction ps arbitrary: g) (auto simp add: nth_list_update)

lemma grayField_nth:
  assumes "q < n" and "4 * q + 2 < length d"
  shows "grayField lum d n ! q = lum (d ! (4 * q)) (d ! (4 * q + 1)) (d ! (4 * q + 2))"
proof -
  have "q \<in> set [0 ..< (length d + 3) div 4]" using assms(2) by simp
  then have "grayField lum d n ! q = grayAt lum d q"
    unfolding grayField_def using assms(1) by (simp add: fold_update_nth)
  moreover have "4 * q < length d" "4 * q + 1 < length d" using assms(2) by simp_all
  ultimately show ?thesis using assms(2) by (simp add: grayAt_def js_at_in_range)
qed

lemma length_grayField: "length (grayField lum d n) = n"
proof -
  have "length (fold (\<lambda>p g. g[p := f p]) ps g) = length g" for f :: "nat \<Rightarrow> nat" and ps g
    by (induction ps arbitrary: g) simp_all
  then show ?thesis by (simp add: grayField_def)
qed

lemma fold_sobelTap_uniform:
  assumes "\<forall>t\<in>set ts. js_at gray (nat (int y + fst t) * w + nat (int x + snd t)) = Some v"
  shows "fold (sobelTap gray w x y) ts (Some sx, Some sy, p) =
    (Some (sx + (\<Sum>i\<leftarrow>[0 ..< length ts]. Gx ! (p + i) * int v)),
     Some (sy + (\<Sum>i\<leftarrow>[0 ..< length ts]. Gy ! (p + i) * int v)),
     p + length ts)"
  using assms
proof (induction ts arbitrary: sx sy p)
  case Nil
  then show ?case by simp
next
  case (Cons t ts)
  obtain ky kx where t: "t = (ky, kx)" by (cases t)
  have "t \<in> set (t # ts)" by simp
  from bspec [OF Cons.prems this]
  have g: "js_at gray (nat (int y + ky) * w + nat (int x + kx)) = Some v"
    unfolding t fst_conv snd_conv .
  have step: "sobelTap gray w x y t (Some sx, Some sy, p) =
      (Some (sx + Gx ! p * int v), Some (sy + Gy ! p * int v), Suc p)"
    by (simp add: sobelTap_def t g int_add_def Let_def)
  have "fold (sobelTap gray w x y) (t # ts) (Some sx, Some sy, p) =
        fold (sobelTap gray w x y) ts (Some (sx + Gx ! p * int v), Some (sy + Gy ! p * int v), Suc p)"
    by (simp only: fold_Cons o_apply step)
  then show ?case
    using Cons.prems Cons.IH [of "sx + Gx ! p * int v" "sy + Gy ! p * int v" "Suc p"]
    by (simp add: sum_list_upt_Suc_shift add.assoc del: upt_Suc)
qed

lemma sobel_kernels_cancel:
  "(\<Sum>i\<leftarrow>[0 ..< 9]. Gx ! i * v) = 0" "(\<Sum>i\<leftarrow>[0 ..< 9]. Gy ! i * v) = 0"
  by (simp_all add: upt_9 Gx_def Gy_def)

lemma hypot_u8_zero: "hypot_u8 0 0 = 0"
  by (simp add: hypot_u8_def upt_conv_Cons)

lemma sobelPixel_putPixel:
  "sobelPixel gray w x y =
     (\<lambda>out. putPixel out ((y * w + x) * 4)
        (sobelMag (fst (sobelAcc gray w x y)) (fst (snd (sobelAcc gray w x y))))
        (sobelMag (fst (sobelAcc gray w x y)) (fst (snd (sobelAcc gray w x y))))
        (sobelMag (fst (sobelAcc gray w x y)) (fst (snd (sobelAcc gray w x y)))) 255)"
  by (rule ext) (simp add: sobelPixel_def split_beta Let_def)

lemma applySobelWith_positive:
  assumes "0 < width cv" "0 < height cv"
  shows "applySobelWith lum cv = Inr (cv\<lparr>data :=
           fold (\<lambda>y. fold (\<lambda>x. sobelPixel (grayField lum (data cv) (width cv * height cv)) (width cv) x y)
                  [1 ..< width cv - 1]) [1 ..< height cv - 1]
             (replicate (4 * width cv * height cv) 0)\<rparr>)"
  using assms by (simp add: applySobelWith_def getImageData_def createImageData_def Let_def)

text \<open>
  Claim C9. On an image whose pixels all have the same colour \<open>(r, g, b)\<close>, the Sobel
  detector returns a buffer in which every interior pixel has the three colour bytes 0
  (gradient magnitude 0, black) and alpha 255. This holds for every conversion \<open>lum\<close>
  from a colour to the stored luma byte, so also for the double-precision one.
\<close>

theorem sobel_uniform_black:
  assumes wf: "wf_canvas cv"
    and uni: "\<forall>p < width cv * height cv.
        data cv ! (4 * p) = r \<and> data cv ! (4 * p + 1) = g \<and> data cv ! (4 * p + 2) = b"
    and xy: "1 \<le> x" "x + 1 < width cv" "1 \<le> y" "y + 1 < height cv"
  shows "\<exists>out. applySobelWith lum cv = Inr (cv\<lparr>data := out\<rparr>)
           \<and> (\<forall>c<3. out ! (idx4 (width cv) x y + c) = 0)
           \<and> out ! (idx4 (width cv) x y + 3) = 255"
proof -
  let ?w = "width cv" and ?h = "height cv"
  let ?gray = "grayField lum (data cv) (?w * ?h)"
  let ?M = "\<lambda>x y. sobelMag (fst (sobelAcc ?gray ?w x y)) (fst (snd (sobelAcc ?gray ?w x y)))"
  let ?A = "\<lambda>(x::nat) (y::nat). 255::nat"
  let ?d0 = "replicate (4 * ?w * ?h) (0::nat)"
  let ?out = "fold (\<lambda>y. fold (\<lambda>x dst. putPixel dst ((y * ?w + x) * 4) (?M x y) (?M x y) (?M x y) (?A x y))
                [1 ..< ?w - 1]) [1 ..< ?h - 1] ?d0"
  have pos: "0 < ?w" "0 < ?h" using xy by simp_all
  have len0: "length ?d0 = 4 * ?w * ?h" by simp
  have src: "length (data cv) = 4 * ?w * ?h" using wf by (simp add: wf_canvas_def)
  have run: "applySobelWith lum cv = Inr (cv\<lparr>data := ?out\<rparr>)"
    using applySobelWith_positive [OF pos, of lum] by (simp add: sobelPixel_putPixel)
  have gray: "js_at ?gray q = Some (lum r g b)" if "q < ?w * ?h" for q
  proof -
    have "4 * q + 2 < length (data cv)" using that src by simp
    then have "?gray ! q = lum (data cv ! (4 * q)) (data cv ! (4 * q + 1)) (data cv ! (4 * q + 2))"
      using that by (intro grayField_nth) simp_all
    then show ?thesis using uni that by (simp add: js_at_in_range length_grayField)
  qed
  have taps_in: "\<forall>t\<in>set taps. js_at ?gray (nat (int y + fst t) * ?w + nat (int x + snd t))
      = Some (lum r g b)"
  proof
    fix t assume "t \<in> set taps"
    then have "fst t \<in> {- 1, 0, 1}" "snd t \<in> {- 1, 0, 1}" using set_taps by auto
    then have "nat (int x + snd t) < ?w" "nat (int y + fst t) < ?h" using xy by auto
    then have "(nat (int y + fst t) * ?w + nat (int x + snd t)) * 4 + 0 < 4 * ?w * ?h"
      by (intro pixel_index_bound) simp_all
    then have "nat (int y + fst t) * ?w + nat (int x + snd t) < ?w * ?h" by simp
    then show "js_at ?gray (nat (int y + fst t) * ?w + nat (int x + snd t)) = Some (lum r g b)"
      by (rule gray)
  qed
  have acc: "sobelAcc ?gray ?w x y = (Some 0, Some 0, 9)"
    unfolding sobelAcc_def
    using fold_sobelTap_uniform [OF taps_in, of 0 0 0]
    by (simp add: length_taps sobel_kernels_cancel)
  have m: "?M x y = 0" by (simp add: acc sobelMag_def hypot_u8_zero)
  have v: "?out ! (idx4 ?w x y + c) = [?M x y, ?M x y, ?M x y, ?A x y] ! c" if "c < 4" for c
    unfolding idx4_def using xy that by (intro pixel_loops(2) [OF len0]) simp_all
  have "?out ! (idx4 ?w x y + c) = 0" if "c < 3" for c
  proof -
    have "[?M x y, ?M x y, ?M x y, ?A x y] ! c = ?M x y"
      using that by (cases c rule: nat.exhaust) (auto simp add: nth_Cons split: nat.splits)
    then show ?thesis using v [of c] that m by simp
  qed
  moreover have "?out ! (idx4 ?w x y + 3) = 255" using v [of 3] by simp
  ultimately show ?thesis using run by blast
qed


theorem sobel_uniform_black_witness:
  "wf_canvas uniform3x3
   \<and> data uniform3x3 = concat (replicate 9 [10, 20, 30, 40])
   \<and> (\<exists>out. applySobelWith luma uniform3x3 = Inr (uniform3x3\<lparr>data := out\<rparr>)
           \<and> out ! (idx4 3 1 1 + 0) = 0 \<and> out ! (idx4 3 1 1 + 1) = 0
           \<and> out ! (idx4 3 1 1 + 2) = 0 \<and> out ! (idx4 3 1 1 + 3) = 255)"
proof -
  have wf: "wf_canvas uniform3x3" by (simp add: wf_canvas_def uniform3x3_def)
  have dims: "width uniform3x3 = 3" "height uniform3x3 = 3" by (simp_all add: uniform3x3_def)
  have rep: "data uniform3x3 = concat (replicate 9 [10, 20, 30, 40])"
    by (simp add: uniform3x3_def numeral_eq_Suc)
  have uni: "\<forall>p < width uniform3x3 * height uniform3x3.
        data uniform3x3 ! (4 * p) = 10 \<and> data uniform3x3 ! (4 * p + 1) = 20
        \<and> data uniform3x3 ! (4 * p + 2) = 30"
  proof (intro allI impI)
    fix p assume "p < width uniform3x3 * height uniform3x3"
    then have "p \<in> set [0 ..< 9]" by (simp add: dims)
    then show "data uniform3x3 ! (4 * p) = 10 \<and> data uniform3x3 ! (4 * p + 1) = 20
        \<and> data uniform3x3 ! (4 * p + 2) = 30"
      unfolding upt_9 by (auto simp add: uniform3x3_def)
  qed
  have "\<exists>out. applySobelWith luma uniform3x3 = Inr (uniform3x3\<lparr>data := out\<rparr>)
           \<and> (\<forall>c<3. out ! (idx4 (width uniform3x3) 1 1 + c) = 0)
           \<and> out ! (idx4 (width uniform3x3) 1 1 + 3) = 255"
    by (rule sobel_uniform_black [OF wf uni]) (simp_all add: dims)
  then obtain out where o: "applySobelWith luma uniform3x3 = Inr (uniform3x3\<lparr>data := out\<rparr>)"
    "\<forall>c<3. out ! (idx4 3 1 1 + c) = 0" "out ! (idx4 3 1 1 + 3) = 255"
    unfolding dims by blast
  have "out ! (idx4 3 1 1 + 0) = 0" "out ! (idx4 3 1 1 + 1) = 0" "out ! (idx4 3 1 1 + 2) = 0"
    using o(2) [rule_format, of 0] o(2) [rule_format, of 1] o(2) [rule_format, of 2]
    by simp_all
  then show ?thesis using wf rep o(1) o(3) by blast
qed

section \<open>Degenerate canvases\<close>

lemma pixel_loops_degenerate:
  assumes "w < 3 \<or> h < 3"
  shows "fold (\<lambda>y. fold (f y) [1 ..< w - 1]) [1 ..< h - 1] d = d"
proof (cases "w < 3")
  case True
  then have e: "[1 ..< w - 1] = []" by simp
  have "fold (\<lambda>y. fold (f y) []) ys d = d" for ys
    by (induction ys) simp_all
  then show ?thesis unfolding e .
next
  case False
  with assms have "h < 3" by simp
  then have e: "[1 ..< h - 1] = []" by simp
  show ?thesis unfolding e by simp
qed

lemma degenerate_blank:
  assumes "0 < width cv" "0 < height cv" "width cv < 3 \<or> height cv < 3"
  shows "applyKernel cv kern = Inr (cv\<lparr>data := replicate (4 * width cv * height cv) 0\<rparr>)"
    and "applySobelWith lum cv = Inr (cv\<lparr>data := replicate (4 * width cv * height cv) 0\<rparr>)"
  unfolding applyKernel_positive [OF assms(1,2)] applySobelWith_positive [OF assms(1,2)]
    pixel_loops_degenerate [OF assms(3)]
  by (rule refl)+

text \<open>
  Claim C8, as amended. On a canvas of positive size that is narrower or lower than three
  pixels, the convolution and the Sobel detector raise nothing and return a buffer of the
  same size in which every byte is 0 (blank and transparent): the pixel loops do not run,
  and the freshly created image data replaces the canvas. On a canvas with a zero
  dimension the read of the image data raises \<open>IndexSizeError\<close>.
\<close>

theorem degenerate_canvas_is_blanked:
  "(0 < width cv \<and> 0 < height cv \<and> (width cv < 3 \<or> height cv < 3) \<longrightarrow>
      applyKernel cv kern = Inr (cv\<lparr>data := replicate (4 * width cv * height cv) 0\<rparr>)
      \<and> applySobelWith lum cv = Inr (cv\<lparr>data := replicate (4 * width cv * height cv) 0\<rparr>))
   \<and> (width cv = 0 \<or> height cv = 0 \<longrightarrow>
      applyKernel cv kern = Inl IndexSizeError \<and> applySobelWith lum cv = Inl IndexSizeError)"
proof (intro conjI impI)
  assume a: "0 < width cv \<and> 0 < height cv \<and> (width cv < 3 \<or> height cv < 3)"
  then show "applyKernel cv kern = Inr (cv\<lparr>data := replicate (4 * width cv * height cv) 0\<rparr>)"
    by (intro degenerate_blank) simp_all
  from a show "applySobelWith lum cv = Inr (cv\<lparr>data := replicate (4 * width cv * height cv) 0\<rparr>)"
    by (intro degenerate_blank) simp_all
next
  assume "width cv = 0 \<or> height cv = 0"
  then show "applyKernel cv kern = Inl IndexSizeError"
    by (auto simp add: applyKernel_def getImageData_def)
next
  assume "width cv = 0 \<or> height cv = 0"
  then show "applySobelWith lum cv = Inl IndexSizeError"
    by (auto simp add: applySobelWith_def getImageData_def)
qed

theorem degenerate_canvas_is_blanked_witness:
  "0 < width sample2x2 \<and> 0 < height sample2x2 \<and> width sample2x2 < 3
   \<and> applyKernel sample2x2 (kernelFromName ''Sharpen'')
       = Inr \<lparr>width = 2, height = 2, data = replicate 16 0\<rparr>
   \<and> applySobelWith luma sample2x2 = Inr \<lparr>width = 2, height = 2, data = replicate 16 0\<rparr>
   \<and> applyKernel \<lparr>width = 0, height = 5, data = []\<rparr> (kernelFromName ''Sharpen'')
       = Inl IndexSizeError
   \<and> applySobelWith luma \<lparr>width = 0, height = 5, data = []\<rparr> = Inl IndexSizeError"
  using degenerate_canvas_is_blanked [of sample2x2 "kernelFromName ''Sharpen''" luma]
    degenerate_canvas_is_blanked
      [of "\<lparr>width = 0, height = 5, data = []\<rparr>" "kernelFromName ''Sharpen''" luma]
  by (simp add: sample2x2_def)

text \<open>
  The claim as stated fails on a 2x2 image: neither operation returns the input unchanged.
\<close>

theorem degenerate_not_unchanged_counterexample:
  "applyKernel sample2x2 (kernelFromName ''Sharpen'') \<noteq> Inr sample2x2
   \<and> applySobel sample2x2 \<noteq> Inr sample2x2"
proof -
  have d: "0 < width sample2x2" "0 < height sample2x2" "width sample2x2 < 3 \<or> height sample2x2 < 3"
    by (simp_all add: sample2x2_def)
  have "hd (replicate (4 * width sample2x2 * height sample2x2) (0::nat)) = 0"
    by (simp add: sample2x2_def)
  moreover have "hd (data sample2x2) = 10" by (simp add: sample2x2_def)
  ultimately have "replicate (4 * width sample2x2 * height sample2x2) 0 \<noteq> data sample2x2"
    by auto
  then have "sample2x2\<lparr>data := replicate (4 * width sample2x2 * height sample2x2) 0\<rparr> \<noteq> sample2x2"
    by (metis canvas.select_convs(3) canvas.surjective canvas.update_convs(3))
  then show ?thesis
    unfolding applySobel_def degenerate_blank [OF d] by simp
qed

section \<open>The byte store and the gradient magnitude\<close>

text \<open>
  The stored byte is within one half of the clamped number, and the stored magnitude is
  within one half of \<open>min(255, sqrt(sx\<^sup>2 + sy\<^sup>2))\<close>: both definitions round to nearest.
\<close>

lemma toUint8Clamped_le: "toUint8Clamped v \<le> 255"
proof -
  have "\<lfloor>v\<rfloor> + 1 \<le> 255" if "v < 255" using that by linarith
  then show ?thesis
    by (auto simp add: toUint8Clamped_def roundEven_def Let_def not_le) linarith+
qed

lemma toUint8Clamped_of_nat: "n \<le> 255 \<Longrightarrow> toUint8Clamped (rat_of_nat n) = n"
  by (auto simp add: toUint8Clamped_def roundEven_def Let_def)

lemma toUint8Clamped_nearest:
  "\<bar>max 0 (min 255 v) - rat_of_nat (toUint8Clamped v)\<bar> \<le> 1 / 2"
proof -
  consider "v \<le> 0" | "255 \<le> v" | "0 < v" "v < 255" by linarith
  then show ?thesis
  proof cases
    case 3
    define fl where "fl = \<lfloor>v\<rfloor>"
    have "of_int fl \<le> v" "v < of_int fl + 1" "0 \<le> fl" unfolding fl_def using 3 by linarith+
    then show ?thesis using 3
      unfolding toUint8Clamped_def roundEven_def Let_def fl_def [symmetric]
      by (auto simp add: max_def min_def abs_if)
  qed (simp_all add: toUint8Clamped_def)
qed

lemma find_first:
  "find P xs = Some k \<Longrightarrow> sorted xs \<Longrightarrow> distinct xs \<Longrightarrow> P k \<and> k \<in> set xs \<and> (\<forall>j\<in>set xs. j < k \<longrightarrow> \<not> P j)"
  for k :: nat
proof (induction xs)
  case Nil
  then show ?case by simp
next
  case (Cons x xs)
  then show ?case by (auto split: if_splits)
qed

lemma hypot_u8_nearest:
  "\<bar>min 255 (sqrt (real_of_int (sx * sx + sy * sy))) - real (hypot_u8 sx sy)\<bar> < 1 / 2"
proof -
  define n where "n = nat (sx * sx + sy * sy)"
  have n: "real_of_int (sx * sx + sy * sy) = real n" by (simp add: n_def)
  show ?thesis
  proof (cases "find (\<lambda>k. n \<le> k * k + k) [0 ..< 255]")
    case None
    then have "\<forall>k<255. \<not> n \<le> k * k + k" by (simp add: find_None_iff)
    then have "\<not> n \<le> 254 * 254 + 254" by (rule allE [of _ 254]) simp
    then have "(509 / 2)\<^sup>2 < real n" by (simp add: power2_eq_square)
    then have "509 / 2 < sqrt (real n)" by (rule real_less_rsqrt)
    moreover have "hypot_u8 sx sy = 255"
      using None by (simp add: hypot_u8_def n_def [symmetric])
    ultimately show ?thesis unfolding n by (simp add: min_def abs_if)
  next
    case (Some k)
    then have k: "n \<le> k * k + k" "k < 255" and first: "\<forall>j<k. \<not> n \<le> j * j + j"
      using find_first [OF Some] by auto
    have h: "hypot_u8 sx sy = k" using Some by (simp add: hypot_u8_def n_def [symmetric])
    have "real n \<le> real (k * k + k)" using k(1) by (rule iffD2 [OF of_nat_le_iff])
    then have "real n < (real k + 1 / 2)\<^sup>2"
      by (simp add: power2_eq_square algebra_simps)
    then have up: "sqrt (real n) < real k + 1 / 2"
      by (intro real_less_lsqrt) simp_all
    have lo: "real k - 1 / 2 < sqrt (real n)"
    proof (cases k)
      case 0
      have "0 \<le> sqrt (real n)" by simp
      then show ?thesis using 0 by linarith
    next
      case (Suc j)
      then have "\<not> n \<le> j * j + j" using first by simp
      then have "j * j + j + 1 \<le> n" by simp
      then have "real (j * j + j + 1) \<le> real n" by (rule iffD2 [OF of_nat_le_iff])
      then have "(real j + 1 / 2)\<^sup>2 < real n"
        by (simp add: power2_eq_square algebra_simps)
      then have "real j + 1 / 2 < sqrt (real n)" by (rule real_less_rsqrt)
      then show ?thesis using Suc by simp
    qed
    have "sqrt (real n) < 255" using up k(2) by linarith
    then show ?thesis unfolding n h using up lo by (simp add: min_def abs_if)
  qed
qed

end
